theory Spec2Isabelle
  imports Main "HOL-Library.Word" "HOL-Library.Monad_Syntax"
begin

section \<open>clf2tab: Common Log Format to tab-separated records\<close>

text \<open>
  A shallow embedding of \<^verbatim>\<open>clf2tab.cpp\<close>. A \<^verbatim>\<open>std::string\<close> is a \<^typ>\<open>string\<close>
  (a list of bytes, which may contain the NUL byte), a thrown \<^verbatim>\<open>const char*\<close> and every
  read outside a string are values of the type \<open>abort\<close>, and the global flag
  \<^verbatim>\<open>skip_validation\<close> is an explicit argument of the functions that read it.
\<close>

subsection \<open>Characters and C strings\<close>

definition NUL :: char where
  "NUL = CHR 0x00"

text \<open>\<^verbatim>\<open>str.c_str()\<close> read as a C string: the bytes before the first NUL.\<close>

definition c_str :: "string \<Rightarrow> string" where
  "c_str str = takeWhile (\<lambda>c. c \<noteq> NUL) str"

text \<open>\<^verbatim>\<open>*head\<close> on the rest of a C string: the terminating NUL when nothing is left.\<close>

fun peek :: "string \<Rightarrow> char" where
  "peek [] = NUL"
| "peek (c # cs) = c"

text \<open>
  The character classes of the C library in the "C" locale (the program never calls
  \<^verbatim>\<open>setlocale\<close>), by byte value.
\<close>

definition isdigit :: "char \<Rightarrow> bool" where
  "isdigit c = (let n = (of_char c :: nat) in 48 \<le> n \<and> n \<le> 57)"

definition isalpha :: "char \<Rightarrow> bool" where
  "isalpha c = (let n = (of_char c :: nat) in (65 \<le> n \<and> n \<le> 90) \<or> (97 \<le> n \<and> n \<le> 122))"

definition isalnum :: "char \<Rightarrow> bool" where
  "isalnum c = (isalpha c \<or> isdigit c)"

subsection \<open>Aborted executions\<close>

text \<open>
  \<open>Throw\<close> is the C++ exception \<^verbatim>\<open>throw "..."\<close> with its message. The other three are
  the places where the program leaves defined behaviour: \<^verbatim>\<open>*(it-1)\<close> with \<^verbatim>\<open>it\<close> at the
  start of the line, \<^verbatim>\<open>logtime[i]\<close> with \<^verbatim>\<open>i\<close> beyond the size of the string, and
  arithmetic on \<^verbatim>\<open>time_t\<close> that leaves its 64 bits.
\<close>

datatype abort = Throw string | ReadBeforeBegin | ReadPastEnd | SignedOverflow

subsection \<open>The parser states\<close>

datatype State = IP | CLIENT | USER | TIME | URL_METHOD | URL_PATH | URL_PROTOCOL
  | CODE | CONTENT | REFERER | AGENT

text \<open>The value of each enumerator (\<^verbatim>\<open>IP=0\<close>, then counting up).\<close>

fun State_value :: "State \<Rightarrow> nat" where
  "State_value IP = 0"
| "State_value CLIENT = 1"
| "State_value USER = 2"
| "State_value TIME = 3"
| "State_value URL_METHOD = 4"
| "State_value URL_PATH = 5"
| "State_value URL_PROTOCOL = 6"
| "State_value CODE = 7"
| "State_value CONTENT = 8"
| "State_value REFERER = 9"
| "State_value AGENT = 10"

subsection \<open>Field validators\<close>

text \<open>
  \<^verbatim>\<open>is_IP\<close>: the loop over the C string, with its two \<^verbatim>\<open>short\<close> counters as 16-bit
  words (\<^verbatim>\<open>++\<close> wraps around) read as signed numbers in the final comparison.
\<close>

fun is_IP_loop :: "string \<Rightarrow> 16 word \<Rightarrow> 16 word \<Rightarrow> bool" where
  "is_IP_loop [] dots len = (sint dots = 3 \<and> sint len \<le> 15)"
| "is_IP_loop (c # head) dots len =
     (if \<not> (isdigit c \<or> c = CHR ''.'') then False
      else is_IP_loop head (if c = CHR ''.'' then dots + 1 else dots) (len + 1))"

definition is_IP :: "string \<Rightarrow> bool" where
  "is_IP str =
     (let head = c_str str in
      if peek head = CHR ''-'' then True
      else is_IP_loop head 0 0)"

fun is_numeric_loop :: "string \<Rightarrow> bool" where
  "is_numeric_loop [] = True"
| "is_numeric_loop (c # head) =
     (if \<not> isdigit c \<and> c \<noteq> CHR ''-'' then False else is_numeric_loop head)"

definition is_numeric :: "string \<Rightarrow> bool" where
  "is_numeric str = is_numeric_loop (c_str str)"

fun is_user_loop :: "string \<Rightarrow> bool" where
  "is_user_loop [] = True"
| "is_user_loop (c # head) =
     (if \<not> (isalnum c \<or> c = CHR ''_'' \<or> c = CHR ''-'' \<or> c = CHR ''@'' \<or> c = CHR ''.'')
      then False else is_user_loop head)"

definition is_user :: "string \<Rightarrow> bool" where
  "is_user str =
     (let head = c_str str in
      if \<not> (isalpha (peek head) \<or> peek head = CHR ''_''
             \<or> (peek head = CHR ''-'' \<and> peek (tl head) = NUL))
      then False
      else is_user_loop (tl head))"

subsection \<open>validate\<close>

text \<open>
  \<^verbatim>\<open>IF_VALID(X)\<close> is \<^verbatim>\<open>if (skip_validation || (X))\<close>. The function returns the new
  value of its reference parameter \<^verbatim>\<open>state\<close>, or the exception. \<^verbatim>\<open>token[0]\<close> of an
  empty string is the NUL after its end.
\<close>

fun validate :: "bool \<Rightarrow> State \<Rightarrow> string \<Rightarrow> abort + State" where
  "validate skip IP token =
     (if skip \<or> is_IP token then Inr CLIENT else Inl (Throw ''IP is invalid.''))"
| "validate skip CLIENT token =
     (if skip \<or> token = ''-'' then Inr USER else Inl (Throw ''Client identity unsupported.''))"
| "validate skip USER token =
     (if skip \<or> is_user token then Inr TIME else Inl (Throw ''USER is invalid.''))"
| "validate skip TIME token =
     (if skip \<or> is_numeric token then Inr URL_METHOD else Inl (Throw ''TIME is not numeric.''))"
| "validate skip URL_METHOD token = Inr URL_PATH"
| "validate skip URL_PATH token =
     (if skip \<or> peek token = CHR ''/'' then Inr URL_PROTOCOL
      else Inl (Throw ''PATH does not begin with forward slash.''))"
| "validate skip URL_PROTOCOL token = Inr CODE"
| "validate skip CODE token =
     (if skip \<or> is_numeric token then Inr CONTENT else Inl (Throw ''CODE is not numeric.''))"
| "validate skip CONTENT token =
     (if skip \<or> is_numeric token then Inr REFERER else Inl (Throw ''CONTENT is not numeric.''))"
| "validate skip REFERER token = Inr AGENT"
| "validate skip AGENT token = Inr AGENT"

subsection \<open>The C library, as far as the program calls it\<close>

text \<open>
  \<^verbatim>\<open>struct tm\<close>, with the fields the program and \<^verbatim>\<open>mktime\<close> read.
\<close>

record tm =
  tm_sec :: int
  tm_min :: int
  tm_hour :: int
  tm_mday :: int
  tm_mon :: int
  tm_year :: int
  tm_isdst :: int

text \<open>
  The three things \<^verbatim>\<open>logtimeToUnix\<close> takes from the host's C library are parameters of
  the model: \<open>strptime\<close> is \<^verbatim>\<open>strptime(s, "%d/%b/%Y:%H:%M:%S %Z", &tm)\<close> on a C string
  (\<open>None\<close> for the NULL result), \<open>mktime\<close> is \<^verbatim>\<open>mktime(&tm)\<close> and \<open>timezone\<close> is the
  global \<^verbatim>\<open>timezone\<close>, the seconds west of UTC of the host's standard time.
\<close>

record libc =
  strptime :: "string \<Rightarrow> tm option"
  mktime :: "tm \<Rightarrow> int"
  timezone :: int

subsection \<open>logtimeToUnix\<close>

text \<open>
  \<^verbatim>\<open>logtime[i]\<close> on a \<^verbatim>\<open>const std::string\<close>: the character, the NUL at \<^verbatim>\<open>i == size()\<close>,
  and undefined beyond.
\<close>

definition str_at :: "string \<Rightarrow> nat \<Rightarrow> char option" where
  "str_at s i = (if i < length s then Some (s ! i) else if i = length s then Some NUL else None)"

text \<open>The value of a \<^verbatim>\<open>char\<close> in arithmetic, \<^verbatim>\<open>char\<close> being signed as on x86.\<close>

definition char_value :: "char \<Rightarrow> int" where
  "char_value c = (let n = (of_char c :: int) in if n < 128 then n else n - 256)"

definition in_time_t :: "int \<Rightarrow> bool" where
  "in_time_t t = (- (2 ^ 63) \<le> t \<and> t < 2 ^ 63)"

text \<open>\<^verbatim>\<open>stream << t\<close>: a \<^verbatim>\<open>long\<close> in decimal.\<close>

definition digit_char :: "nat \<Rightarrow> char" where
  "digit_char d = ''0123456789'' ! d"

fun dec_nat :: "nat \<Rightarrow> string" where
  "dec_nat n = (if n < 10 then [digit_char n] else dec_nat (n div 10) @ [digit_char (n mod 10)])"

declare dec_nat.simps [simp del]

definition dec_int :: "int \<Rightarrow> string" where
  "dec_int t = (if t < 0 then CHR ''-'' # dec_nat (nat (- t)) else dec_nat (nat t))"

definition logtimeToUnix :: "libc \<Rightarrow> string \<Rightarrow> abort + string" where
  "logtimeToUnix L logtime =
     (case strptime L (c_str logtime) of
        None \<Rightarrow> Inr ''-''
      | Some tm0 \<Rightarrow>
          (let tm = tm0\<lparr>tm_isdst := 0\<rparr> in
           case (str_at logtime 22, str_at logtime 23, str_at logtime 24,
                 str_at logtime 25, str_at logtime 21) of
             (Some c22, Some c23, Some c24, Some c25, Some c21) \<Rightarrow>
               (let hours = 10 * (char_value c22 - 48) + char_value c23 - 48;
                    mins = 10 * (char_value c24 - 48) + char_value c25 - 48;
                    off_secs = 60 * 60 * hours + 60 * mins;
                    off_secs = (if c21 = CHR ''-'' then off_secs * (- 1) else off_secs);
                    t = mktime L tm
                in if t = - 1 then Inr ''-''
                   else if \<not> in_time_t (t - timezone L) then Inl SignedOverflow
                   else if \<not> in_time_t (t - timezone L + off_secs) then Inl SignedOverflow
                   else Inr (dec_int (t - timezone L + off_secs)))
           | _ \<Rightarrow> Inl ReadPastEnd))"

subsection \<open>A C library to run the model on\<close>

text \<open>
  The GNU C library's \<^verbatim>\<open>strptime\<close> for the format \<^verbatim>\<open>"%d/%b/%Y:%H:%M:%S %Z"\<close> in the "C"
  locale: a number skips leading white space and takes at most its width in digits, a
  month is a full or abbreviated English name in any case, white space in the format
  matches any white space of the input, also none, and \<^verbatim>\<open>%Z\<close> consumes nothing.
\<close>

definition isspace :: "char \<Rightarrow> bool" where
  "isspace c = (let n = (of_char c :: nat) in n = 32 \<or> (9 \<le> n \<and> n \<le> 13))"

text \<open>\<^verbatim>\<open>toupper\<close>, as the code of the character it returns.\<close>

definition toupper :: "char \<Rightarrow> nat" where
  "toupper c = (let n = (of_char c :: nat) in if 97 \<le> n \<and> n \<le> 122 then n - 32 else n)"

fun number_loop :: "int \<Rightarrow> nat \<Rightarrow> int \<Rightarrow> string \<Rightarrow> int \<times> string" where
  "number_loop hi n val [] = (val, [])"
| "number_loop hi n val (c # rp) =
     (let val' = val * 10 + (of_char c - 48) in
      if n - 1 > 0 \<and> val' * 10 \<le> hi \<and> isdigit (peek rp) then number_loop hi (n - 1) val' rp
      else (val', rp))"

definition get_number :: "int \<Rightarrow> int \<Rightarrow> nat \<Rightarrow> string \<Rightarrow> (int \<times> string) option" where
  "get_number lo hi n rp0 =
     (let rp = dropWhile isspace rp0 in
      if \<not> isdigit (peek rp) then None
      else (case number_loop hi n 0 rp of
              (val, rp') \<Rightarrow> if val < lo \<or> hi < val then None else Some (val, rp')))"

definition match_char :: "char \<Rightarrow> string \<Rightarrow> string option" where
  "match_char ch rp = (if peek rp = ch \<and> rp \<noteq> [] then Some (tl rp) else None)"

definition match_string :: "string \<Rightarrow> string \<Rightarrow> string option" where
  "match_string name rp =
     (if length name \<le> length rp \<and> map toupper (take (length name) rp) = map toupper name
      then Some (drop (length name) rp) else None)"

definition month_name :: "(string \<times> string) list" where
  "month_name =
     [(''January'', ''Jan''), (''February'', ''Feb''), (''March'', ''Mar''),
      (''April'', ''Apr''), (''May'', ''May''), (''June'', ''Jun''),
      (''July'', ''Jul''), (''August'', ''Aug''), (''September'', ''Sep''),
      (''October'', ''Oct''), (''November'', ''Nov''), (''December'', ''Dec'')]"

text \<open>One name tried at the month \<open>cnt\<close>: it replaces the longest match so far if it is longer.\<close>

definition try_name :: "string \<Rightarrow> int \<Rightarrow> string \<Rightarrow> (int \<times> string) option \<Rightarrow> (int \<times> string) option" where
  "try_name name cnt rp longest =
     (case match_string name rp of
        None \<Rightarrow> longest
      | Some trp \<Rightarrow>
          (case longest of
             None \<Rightarrow> Some (cnt, trp)
           | Some (cnt_longest, rp_longest) \<Rightarrow>
               if length trp < length rp_longest then Some (cnt, trp) else longest))"

fun match_month :: "(string \<times> string) list \<Rightarrow> int \<Rightarrow> string \<Rightarrow> (int \<times> string) option
    \<Rightarrow> (int \<times> string) option" where
  "match_month [] cnt rp longest = longest"
| "match_month ((full, ab) # names) cnt rp longest =
     match_month names (cnt + 1) rp (try_name ab cnt rp (try_name full cnt rp longest))"

definition glibc_strptime :: "string \<Rightarrow> tm option" where
  "glibc_strptime s = do {
     (mday, s) \<leftarrow> get_number 1 31 2 s;
     s \<leftarrow> match_char CHR ''/'' s;
     (mon, s) \<leftarrow> match_month month_name 0 s None;
     s \<leftarrow> match_char CHR ''/'' s;
     (year, s) \<leftarrow> get_number 0 9999 4 s;
     s \<leftarrow> match_char CHR '':'' s;
     (hour, s) \<leftarrow> get_number 0 23 2 s;
     s \<leftarrow> match_char CHR '':'' s;
     (minute, s) \<leftarrow> get_number 0 59 2 s;
     s \<leftarrow> match_char CHR '':'' s;
     (sec, s) \<leftarrow> get_number 0 61 2 s;
     Some \<lparr>tm_sec = sec, tm_min = minute, tm_hour = hour, tm_mday = mday, tm_mon = mon,
           tm_year = year - 1900, tm_isdst = 0\<rparr>
   }"

text \<open>
  \<^verbatim>\<open>mktime\<close> for a zone that keeps one offset all year, as \<^verbatim>\<open>tm_isdst = 0\<close> asks for:
  the seconds from the epoch to the broken-down time read as UTC, plus the seconds the
  zone lies west of UTC. Days and seconds beyond their range carry over, as in the
  library.
\<close>

definition leapyear :: "int \<Rightarrow> bool" where
  "leapyear y = (y mod 4 = 0 \<and> (y mod 100 \<noteq> 0 \<or> y mod 400 = 0))"

definition leaps_before :: "int \<Rightarrow> int" where
  "leaps_before y = (y - 1) div 4 - (y - 1) div 100 + (y - 1) div 400"

definition mon_yday :: "bool \<Rightarrow> int list" where
  "mon_yday leap =
     (if leap then [0, 31, 60, 91, 121, 152, 182, 213, 244, 274, 305, 335]
      else [0, 31, 59, 90, 120, 151, 181, 212, 243, 273, 304, 334])"

definition timegm :: "tm \<Rightarrow> int" where
  "timegm t =
     (let year = 1900 + tm_year t + tm_mon t div 12;
          yday = mon_yday (leapyear year) ! nat (tm_mon t mod 12) + tm_mday t - 1;
          days = 365 * (year - 1970) + (leaps_before year - leaps_before 1970) + yday
      in ((days * 24 + tm_hour t) * 60 + tm_min t) * 60 + tm_sec t)"

definition glibc :: "int \<Rightarrow> libc" where
  "glibc tz = \<lparr>strptime = glibc_strptime, mktime = (\<lambda>t. timegm t + tz), timezone = tz\<rparr>"

subsection \<open>scanCLF\<close>

definition dquote :: char where
  "dquote = CHR 0x22"

definition backslash :: char where
  "backslash = CHR 0x5C"

text \<open>The three locals of \<^verbatim>\<open>scanCLF\<close> that live across the iterations of its loop.\<close>

record scanner =
  tokens :: "string list"
  token :: string
  state :: State

text \<open>
  \<^verbatim>\<open>validate(state, tok); tokens.push_back(tok); token.clear();\<close> An exception leaves
  the function before anything is pushed.
\<close>

definition commit :: "bool \<Rightarrow> scanner \<Rightarrow> string \<Rightarrow> abort + scanner" where
  "commit skip s tok =
     (case validate skip (state s) tok of
        Inl e \<Rightarrow> Inl e
      | Inr st \<Rightarrow> Inr \<lparr>tokens = tokens s @ [tok], token = [], state = st\<rparr>)"

text \<open>
  The cases \<^verbatim>\<open>IP, CLIENT, USER, CODE, CONTENT\<close>; \<open>at_end\<close> is \<^verbatim>\<open>it+1 == line.end()\<close>.
\<close>

definition scan_simple :: "bool \<Rightarrow> char \<Rightarrow> bool \<Rightarrow> scanner \<Rightarrow> abort + scanner" where
  "scan_simple skip c at_end s =
     (case (if c \<noteq> CHR '' '' \<and> c \<noteq> CHR '','' then Inr (s\<lparr>token := token s @ [c]\<rparr>)
            else if c = CHR '','' \<and> state s = IP
              then Inr (s\<lparr>tokens := tokens s @ [token s], token := []\<rparr>)
            else if token s \<noteq> [] then commit skip s (token s)
            else Inr s) of
        Inl e \<Rightarrow> Inl e
      | Inr s' \<Rightarrow>
          if at_end \<and> token s' \<noteq> [] then Inr (s'\<lparr>tokens := tokens s' @ [token s']\<rparr>)
          else Inr s')"

text \<open>The case \<^verbatim>\<open>TIME\<close>.\<close>

definition scan_time :: "libc \<Rightarrow> bool \<Rightarrow> char \<Rightarrow> scanner \<Rightarrow> abort + scanner" where
  "scan_time L skip c s =
     (if c \<noteq> CHR ''['' \<and> c \<noteq> CHR '']'' then Inr (s\<lparr>token := token s @ [c]\<rparr>)
      else if c = CHR '']'' then
        (case logtimeToUnix L (token s) of
           Inl e \<Rightarrow> Inl e
         | Inr converted \<Rightarrow> commit skip s converted)
      else Inr s)"

text \<open>
  The condition \<^verbatim>\<open>*it != '"' || *(it-1) == '\\'\<close>, with \<open>prev\<close> the character before
  \<^verbatim>\<open>it\<close>, if there is one. The right operand is evaluated only when the left is false.
\<close>

definition unquoted :: "char option \<Rightarrow> char \<Rightarrow> abort + bool" where
  "unquoted prev c =
     (if c \<noteq> dquote then Inr True
      else (case prev of None \<Rightarrow> Inl ReadBeforeBegin | Some b \<Rightarrow> Inr (b = backslash)))"

text \<open>The cases \<^verbatim>\<open>URL_METHOD, URL_PATH, URL_PROTOCOL\<close>.\<close>

definition scan_url :: "bool \<Rightarrow> char option \<Rightarrow> char \<Rightarrow> scanner \<Rightarrow> abort + scanner" where
  "scan_url skip prev c s =
     (case unquoted prev c of
        Inl e \<Rightarrow> Inl e
      | Inr u \<Rightarrow>
          if u then
            (if c \<noteq> CHR '' '' then Inr (s\<lparr>token := token s @ [c]\<rparr>)
             else if token s \<noteq> [] then commit skip s (token s)
             else Inr s)
          else if token s \<noteq> [] then commit skip s (token s)
          else Inr s)"

text \<open>The cases \<^verbatim>\<open>REFERER, AGENT\<close>.\<close>

definition scan_tail :: "bool \<Rightarrow> char option \<Rightarrow> char \<Rightarrow> scanner \<Rightarrow> abort + scanner" where
  "scan_tail skip prev c s =
     (case unquoted prev c of
        Inl e \<Rightarrow> Inl e
      | Inr u \<Rightarrow>
          if u \<and> (c \<noteq> CHR '' '' \<or> token s \<noteq> []) then Inr (s\<lparr>token := token s @ [c]\<rparr>)
          else if token s \<noteq> [] then commit skip s (token s)
          else Inr s)"

text \<open>The body of the loop: the \<^verbatim>\<open>switch\<close> on the state.\<close>

definition scan_char :: "libc \<Rightarrow> bool \<Rightarrow> char option \<Rightarrow> char \<Rightarrow> bool \<Rightarrow> scanner
    \<Rightarrow> abort + scanner" where
  "scan_char L skip prev c at_end s =
     (case state s of
        IP \<Rightarrow> scan_simple skip c at_end s
      | CLIENT \<Rightarrow> scan_simple skip c at_end s
      | USER \<Rightarrow> scan_simple skip c at_end s
      | CODE \<Rightarrow> scan_simple skip c at_end s
      | CONTENT \<Rightarrow> scan_simple skip c at_end s
      | TIME \<Rightarrow> scan_time L skip c s
      | URL_METHOD \<Rightarrow> scan_url skip prev c s
      | URL_PATH \<Rightarrow> scan_url skip prev c s
      | URL_PROTOCOL \<Rightarrow> scan_url skip prev c s
      | REFERER \<Rightarrow> scan_tail skip prev c s
      | AGENT \<Rightarrow> scan_tail skip prev c s)"

text \<open>
  The loop over the line: the iterator is the rest of the line from \<^verbatim>\<open>it\<close> on, together
  with the character before it (\<open>None\<close> at \<^verbatim>\<open>line.begin()\<close>).
\<close>

fun scan_loop :: "libc \<Rightarrow> bool \<Rightarrow> char option \<Rightarrow> string \<Rightarrow> scanner \<Rightarrow> abort + scanner" where
  "scan_loop L skip prev [] s = Inr s"
| "scan_loop L skip prev (c # rest) s =
     (case scan_char L skip prev c (rest = []) s of
        Inl e \<Rightarrow> Inl e
      | Inr s' \<Rightarrow> scan_loop L skip (Some c) rest s')"

text \<open>The vector \<^verbatim>\<open>tokens\<close> when the loop is left.\<close>

definition tokenize :: "libc \<Rightarrow> bool \<Rightarrow> string \<Rightarrow> abort + string list" where
  "tokenize L skip line =
     (case scan_loop L skip None line \<lparr>tokens = [], token = [], state = IP\<rparr> of
        Inl e \<Rightarrow> Inl e
      | Inr s \<Rightarrow> Inr (tokens s))"

text \<open>The output loop: the tokens with a tab between two of them.\<close>

fun print_tokens :: "string list \<Rightarrow> string" where
  "print_tokens [] = []"
| "print_tokens [t] = t"
| "print_tokens (t # ts) = t @ [CHR 0x09] @ print_tokens ts"

text \<open>
  The state of the process: the global flag and what has been written to the two
  streams.
\<close>

record process =
  skip_validation :: bool
  cout :: string
  cerr :: string

definition scanCLF :: "libc \<Rightarrow> string \<Rightarrow> process \<Rightarrow> abort + process" where
  "scanCLF L line p =
     (case tokenize L (skip_validation p) line of
        Inl e \<Rightarrow> Inl e
      | Inr ts \<Rightarrow> Inr (p\<lparr>cout := cout p @ print_tokens ts @ [CHR 0x0A]\<rparr>))"

subsection \<open>main\<close>

text \<open>
  The loop of \<^verbatim>\<open>main\<close> over the lines of the input: an exception is reported on
  \<^verbatim>\<open>cerr\<close> and the loop goes on; undefined behaviour ends the run.
\<close>

fun main_loop :: "libc \<Rightarrow> string list \<Rightarrow> process \<Rightarrow> abort + process" where
  "main_loop L [] p = Inr p"
| "main_loop L (line # rest) p =
     (case scanCLF L line p of
        Inr p' \<Rightarrow> main_loop L rest p'
      | Inl (Throw e) \<Rightarrow>
          main_loop L rest
            (p\<lparr>cerr := cerr p @ ''Error '' @ [dquote] @ e @ [dquote] @ '' on line: '' @ line
                  @ [CHR 0x0A]\<rparr>)
      | Inl u \<Rightarrow> Inl u)"

definition main :: "libc \<Rightarrow> string list \<Rightarrow> abort + process" where
  "main L input = main_loop L input \<lparr>skip_validation = False, cout = [], cerr = []\<rparr>"

subsection \<open>Notions used to state the properties\<close>

text \<open>
  The record as the specification words it: the fields joined with a single tab
  character. It is compared with the output loop of the code, \<^verbatim>\<open>print_tokens\<close>.
\<close>

definition tab_separated :: "string list \<Rightarrow> string" where
  "tab_separated ts = (case ts of [] \<Rightarrow> [] | t # r \<Rightarrow> t @ concat (map ((#) (CHR 0x09)) r))"

text \<open>The character \<open>x\<close> occurs neither in the pending token nor in a committed one.\<close>

definition without :: "char \<Rightarrow> scanner \<Rightarrow> bool" where
  "without x s = (x \<notin> set (token s) \<and> (\<forall>t \<in> set (tokens s). x \<notin> set t))"

section \<open>Evaluating the model\<close>

text \<open>
  The definitions the simplifier unfolds to run the model on a concrete line, and the
  congruence rules that make it evaluate a \<open>case\<close> only after its scrutinee.
\<close>

lemmas libc_defs = glibc_def glibc_strptime_def get_number_def isspace_def match_char_def
  month_name_def try_name_def match_string_def toupper_def timegm_def leapyear_def
  leaps_before_def mon_yday_def
lemmas time_defs = logtimeToUnix_def str_at_def char_value_def in_time_t_def dec_int_def
  dec_nat.simps digit_char_def
lemmas valid_defs = c_str_def NUL_def isdigit_def isalpha_def isalnum_def is_IP_def
  is_numeric_def is_user_def
lemmas scan_defs = tokenize_def scan_char_def scan_simple_def scan_time_def scan_url_def
  scan_tail_def unquoted_def commit_def dquote_def backslash_def
lemma bind_cong_weak: "x = y \<Longrightarrow> Option.bind x f = Option.bind y f"
  by simp
lemmas lazy = option.case_cong_weak sum.case_cong_weak prod.case_cong_weak
  list.case_cong_weak State.case_cong_weak abort.case_cong_weak bind_cong_weak

section \<open>How a scan can end\<close>

text \<open>
  \<^verbatim>\<open>validate\<close> ends in an exception or in a state; the read before the start of the
  line can only come from the lookback, and only when nothing precedes \<^verbatim>\<open>it\<close>.
\<close>

lemma validate_Inl: "validate skip s tok = Inl e \<Longrightarrow> \<exists>m. e = Throw m"
  by (cases s) (auto split: if_splits)

lemma validate_skip: "\<exists>s'. validate True s tok = Inr s'"
  by (cases s) auto

lemma validate_step:
  "validate skip s tok = Inr s' \<Longrightarrow>
     (s = AGENT \<and> s' = AGENT) \<or> State_value s' = State_value s + 1"
  by (cases s) (auto split: if_splits)

lemma commit_Inl: "commit skip s tok = Inl e \<Longrightarrow> \<exists>m. e = Throw m"
  by (auto simp: commit_def split: sum.splits dest: validate_Inl)

lemma commit_skip: "\<exists>s'. commit True s tok = Inr s'"
  using validate_skip [of "state s" tok] by (auto simp: commit_def)

lemma logtimeToUnix_Inl:
  "logtimeToUnix L logtime = Inl e \<Longrightarrow> e = ReadPastEnd \<or> e = SignedOverflow"
  by (auto simp: logtimeToUnix_def Let_def split: option.splits prod.splits if_splits)

lemma scan_simple_Inl: "scan_simple skip c at_end s = Inl e \<Longrightarrow> \<exists>m. e = Throw m"
  by (auto simp: scan_simple_def split: sum.splits if_splits dest: commit_Inl)

lemma scan_time_Inl: "scan_time L skip c s = Inl e \<Longrightarrow> e \<noteq> ReadBeforeBegin"
  by (auto simp: scan_time_def split: sum.splits if_splits dest: commit_Inl logtimeToUnix_Inl)

lemma unquoted_Some: "\<exists>u. unquoted (Some b) c = Inr u"
  by (auto simp: unquoted_def)

lemma scan_url_Inl: "scan_url skip (Some b) c s = Inl e \<Longrightarrow> \<exists>m. e = Throw m"
  using unquoted_Some [of b c]
  by (auto simp: scan_url_def split: sum.splits if_splits dest: commit_Inl)

lemma scan_tail_Inl: "scan_tail skip (Some b) c s = Inl e \<Longrightarrow> \<exists>m. e = Throw m"
  using unquoted_Some [of b c]
  by (auto simp: scan_tail_def split: sum.splits if_splits dest: commit_Inl)

lemma scan_char_Some: "scan_char L skip (Some b) c at_end s \<noteq> Inl ReadBeforeBegin"
  by (cases "state s")
     (auto simp: scan_char_def dest: scan_simple_Inl scan_time_Inl scan_url_Inl scan_tail_Inl)

lemma scan_char_IP: "state s = IP \<Longrightarrow> scan_char L skip prev c at_end s \<noteq> Inl ReadBeforeBegin"
  by (auto simp: scan_char_def dest: scan_simple_Inl)

lemma scan_loop_Some: "scan_loop L skip (Some b) line s \<noteq> Inl ReadBeforeBegin"
proof (induction line arbitrary: b s)
  case Nil
  show ?case by simp
next
  case (Cons c rest)
  show ?case
    using scan_char_Some [of L skip b c "rest = []" s] Cons.IH [of c]
    by (auto split: sum.splits)
qed

lemma scan_loop_IP: "state s = IP \<Longrightarrow> scan_loop L skip prev line s \<noteq> Inl ReadBeforeBegin"
proof (cases line)
  case Nil
  then show ?thesis by simp
next
  case (Cons c rest)
  assume "state s = IP"
  then show ?thesis
    using scan_char_IP [of s L skip prev c "rest = []"] scan_loop_Some [of L skip c rest] Cons
    by (auto split: sum.splits)
qed

lemma tokenize_lookback: "tokenize L skip line \<noteq> Inl ReadBeforeBegin"
  using scan_loop_IP [of "\<lparr>tokens = [], token = [], state = IP\<rparr>" L skip None line]
  by (auto simp: tokenize_def split: sum.splits)

lemma main_loop_lookback: "main_loop L lines p \<noteq> Inl ReadBeforeBegin"
proof (induction lines arbitrary: p)
  case Nil
  show ?case by simp
next
  case (Cons line rest)
  show ?case
    using tokenize_lookback [of L "skip_validation p" line] Cons.IH
    by (auto simp: scanCLF_def split: sum.splits abort.splits)
qed

section \<open>The permissive flag\<close>

lemma commit_skip_Inl: "commit True s tok \<noteq> Inl e"
  using commit_skip [of s tok] by auto

lemma scan_simple_skip: "scan_simple True c at_end s \<noteq> Inl e"
  by (auto simp: scan_simple_def commit_skip_Inl split: sum.splits if_splits)

lemma scan_time_skip: "scan_time L True c s \<noteq> Inl (Throw m)"
  by (auto simp: scan_time_def commit_skip_Inl split: sum.splits if_splits dest: logtimeToUnix_Inl)

lemma unquoted_Inl: "unquoted prev c = Inl e \<Longrightarrow> e = ReadBeforeBegin"
  by (auto simp: unquoted_def split: if_splits option.splits)

lemma scan_url_skip: "scan_url True prev c s \<noteq> Inl (Throw m)"
  by (auto simp: scan_url_def commit_skip_Inl split: sum.splits if_splits dest: unquoted_Inl)

lemma scan_tail_skip: "scan_tail True prev c s \<noteq> Inl (Throw m)"
  by (auto simp: scan_tail_def commit_skip_Inl split: sum.splits if_splits dest: unquoted_Inl)

lemma scan_char_skip: "scan_char L True prev c at_end s \<noteq> Inl (Throw m)"
  by (cases "state s")
     (simp_all add: scan_char_def scan_simple_skip scan_time_skip scan_url_skip scan_tail_skip)

lemma scan_loop_skip: "scan_loop L True prev line s \<noteq> Inl (Throw m)"
proof (induction line arbitrary: prev s)
  case Nil
  show ?case by simp
next
  case (Cons c rest)
  show ?case
    using scan_char_skip [of L prev c "rest = []" s m] Cons.IH [of "Some c"]
    by (auto split: sum.splits)
qed

lemma tokenize_skip: "tokenize L True line \<noteq> Inl (Throw m)"
  using scan_loop_skip [of L None line "\<lparr>tokens = [], token = [], state = IP\<rparr>" m]
  by (auto simp: tokenize_def split: sum.splits)

section \<open>The token of a timestamp\<close>

text \<open>Whatever \<^verbatim>\<open>logtimeToUnix\<close> returns, \<^verbatim>\<open>is_numeric\<close> accepts it.\<close>

lemma digit_char_isdigit: "d < 10 \<Longrightarrow> isdigit (digit_char d)"
proof -
  assume "d < 10"
  then have "d \<in> {0, 1, 2, 3, 4, 5, 6, 7, 8, 9}" by auto
  then show ?thesis by (auto simp: digit_char_def isdigit_def)
qed

lemma dec_nat_digits: "\<forall>c \<in> set (dec_nat n). isdigit c"
proof (induction n rule: dec_nat.induct)
  case (1 n)
  show ?case
  proof (cases "n < 10")
    case True
    then show ?thesis by (simp add: dec_nat.simps [of n] digit_char_isdigit)
  next
    case False
    then show ?thesis using "1.IH" by (simp add: dec_nat.simps [of n] digit_char_isdigit)
  qed
qed

lemma dec_int_chars: "\<forall>c \<in> set (dec_int t). isdigit c \<or> c = CHR ''-''"
  using dec_nat_digits by (auto simp: dec_int_def)

lemma is_numeric_loop_iff: "is_numeric_loop s = (\<forall>c \<in> set s. isdigit c \<or> c = CHR ''-'')"
  by (induction s) auto

lemma isdigit_not_NUL: "isdigit c \<Longrightarrow> c \<noteq> NUL"
  by (auto simp: isdigit_def NUL_def)

lemma c_str_id: "NUL \<notin> set s \<Longrightarrow> c_str s = s"
  by (auto simp: c_str_def takeWhile_eq_all_conv)

lemma is_numeric_dec_int: "is_numeric (dec_int t)"
proof -
  have chars: "\<forall>c \<in> set (dec_int t). isdigit c \<or> c = CHR ''-''" by (rule dec_int_chars)
  then have "NUL \<notin> set (dec_int t)" by (auto simp: NUL_def dest: isdigit_not_NUL)
  then have "c_str (dec_int t) = dec_int t" by (rule c_str_id)
  with chars show ?thesis by (simp add: is_numeric_def is_numeric_loop_iff)
qed

lemma is_numeric_dash: "is_numeric ''-''"
  by (simp add: is_numeric_def c_str_def NUL_def)

lemma logtimeToUnix_numeric: "logtimeToUnix L logtime = Inr tok \<Longrightarrow> is_numeric tok"
  by (auto simp: logtimeToUnix_def Let_def is_numeric_dec_int is_numeric_dash
      split: option.splits prod.splits if_splits)

section \<open>The loop of main\<close>

lemma main_loop_single:
  "main_loop L [line] p =
     (case tokenize L (skip_validation p) line of
        Inr ts \<Rightarrow> Inr (p\<lparr>cout := cout p @ print_tokens ts @ [CHR 0x0A]\<rparr>)
      | Inl (Throw e) \<Rightarrow>
          Inr (p\<lparr>cerr := cerr p @ ''Error '' @ [dquote] @ e @ [dquote] @ '' on line: '' @ line
                 @ [CHR 0x0A]\<rparr>)
      | Inl ReadBeforeBegin \<Rightarrow> Inl ReadBeforeBegin
      | Inl ReadPastEnd \<Rightarrow> Inl ReadPastEnd
      | Inl SignedOverflow \<Rightarrow> Inl SignedOverflow)"
  by (simp add: scanCLF_def split: sum.splits abort.splits)

lemma scanCLF_flag: "scanCLF L line p = Inr p' \<Longrightarrow> skip_validation p' = skip_validation p"
  by (auto simp: scanCLF_def split: sum.splits)

lemma main_loop_flag: "main_loop L lines p = Inr q \<Longrightarrow> skip_validation q = skip_validation p"
proof (induction lines arbitrary: p)
  case Nil
  then show ?case by simp
next
  case (Cons line rest)
  show ?case
  proof (cases "scanCLF L line p")
    case (Inr p')
    with Cons.prems have "main_loop L rest p' = Inr q" by simp
    then have "skip_validation q = skip_validation p'" by (rule Cons.IH)
    with Inr show ?thesis by (simp add: scanCLF_flag)
  next
    case (Inl e)
    show ?thesis
    proof (cases e)
      case (Throw m)
      with Inl Cons.prems
      have "main_loop L rest (p\<lparr>cerr := cerr p @ ''Error '' @ [dquote] @ m @ [dquote]
              @ '' on line: '' @ line @ [CHR 0x0A]\<rparr>) = Inr q"
        by simp
      then show ?thesis using Cons.IH by fastforce
    qed (use Inl Cons.prems in simp_all)
  qed
qed

lemma main_loop_appends:
  assumes "main_loop L [line] p = Inr p'" and "skip_validation q = skip_validation p"
  shows "\<exists>out err. p' = p\<lparr>cout := cout p @ out, cerr := cerr p @ err\<rparr>
           \<and> main_loop L [line] q = Inr (q\<lparr>cout := cout q @ out, cerr := cerr q @ err\<rparr>)"
proof (cases "tokenize L (skip_validation p) line")
  case (Inr ts)
  with assms(1) have "p' = p\<lparr>cout := cout p @ print_tokens ts @ [CHR 0x0A]\<rparr>"
    by (auto simp: scanCLF_def)
  then have "p' = p\<lparr>cout := cout p @ print_tokens ts @ [CHR 0x0A], cerr := cerr p @ []\<rparr>"
    by simp
  moreover from Inr assms(2)
  have "main_loop L [line] q
          = Inr (q\<lparr>cout := cout q @ print_tokens ts @ [CHR 0x0A], cerr := cerr q @ []\<rparr>)"
    by (simp add: scanCLF_def)
  ultimately show ?thesis by blast
next
  case (Inl e)
  show ?thesis
  proof (cases e)
    case (Throw m)
    with Inl assms(1)
    have "p' = p\<lparr>cerr := cerr p @ ''Error '' @ [dquote] @ m @ [dquote] @ '' on line: '' @ line
                     @ [CHR 0x0A]\<rparr>"
      by (auto simp: scanCLF_def)
    then have "p' = p\<lparr>cout := cout p @ [],
                   cerr := cerr p @ ''Error '' @ [dquote] @ m @ [dquote] @ '' on line: '' @ line
                     @ [CHR 0x0A]\<rparr>"
      by simp
    moreover from Throw Inl assms(2)
    have "main_loop L [line] q
             = Inr (q\<lparr>cout := cout q @ [],
                        cerr := cerr q @ ''Error '' @ [dquote] @ m @ [dquote] @ '' on line: ''
                          @ line @ [CHR 0x0A]\<rparr>)"
      by (simp add: scanCLF_def)
    ultimately show ?thesis by blast
  qed (use Inl assms in \<open>simp_all add: scanCLF_def\<close>)
qed

section \<open>What is_IP accepts\<close>

text \<open>
  The loop in terms of the whole string, and \<^verbatim>\<open>is_IP\<close> on a token without NUL that is
  short enough for the two counters: such a token is accepted when it begins with \<^verbatim>\<open>-\<close>,
  or consists of digits and dots, with three dots and at most 15 characters.
\<close>

lemma sint16_eq_3: "sint (w :: 16 word) = 3 \<longleftrightarrow> w = 3"
proof
  assume "sint w = 3"
  then have "sint w = sint (3 :: 16 word)" by simp
  then show "w = 3" by (rule signed_word_eqI)
qed simp

lemma is_IP_loop_iff:
  "is_IP_loop s dots len \<longleftrightarrow>
     (\<forall>c \<in> set s. isdigit c \<or> c = CHR ''.'')
     \<and> dots + of_nat (count_list s (CHR ''.'')) = 3
     \<and> sint (len + of_nat (length s)) \<le> 15"
  by (induction s arbitrary: dots len) (auto simp: sint16_eq_3 algebra_simps)

lemma of_nat16_eq_3: "n < 65536 \<Longrightarrow> (of_nat n :: 16 word) = 3 \<longleftrightarrow> n = 3"
proof
  assume small: "n < 65536" and eq: "(of_nat n :: 16 word) = 3"
  from eq have "unat (of_nat n :: 16 word) = unat (3 :: 16 word)" by simp
  with small show "n = 3" by (simp add: unat_of_nat)
qed simp

lemma sint16_of_nat: "n < 32768 \<Longrightarrow> sint (of_nat n :: 16 word) = int n"
  by (simp add: signed_of_nat signed_take_bit_int_eq_self)

lemma is_IP_short:
  assumes "length s < 32768" and "NUL \<notin> set s"
  shows "is_IP s \<longleftrightarrow>
     peek s = CHR ''-''
     \<or> ((\<forall>c \<in> set s. isdigit c \<or> c = CHR ''.'') \<and> count_list s (CHR ''.'') = 3 \<and> length s \<le> 15)"
proof -
  have "count_list s (CHR ''.'') \<le> length s" by (rule count_le_length)
  with assms(1) have "count_list s (CHR ''.'') < 65536" by simp
  then have dots: "(of_nat (count_list s (CHR ''.'')) :: 16 word) = 3 \<longleftrightarrow> count_list s (CHR ''.'') = 3"
    by (rule of_nat16_eq_3)
  have len: "sint (of_nat (length s) :: 16 word) = int (length s)"
    using assms(1) by (rule sint16_of_nat)
  have "c_str s = s" using assms(2) by (rule c_str_id)
  then show ?thesis by (simp add: is_IP_def is_IP_loop_iff dots len)
qed

lemma peek_replicate: "0 < n \<Longrightarrow> peek (replicate n c @ s) = c"
  by (cases n) auto

lemma is_IP_loop_digits:
  "isdigit c \<Longrightarrow> c \<noteq> CHR ''.'' \<Longrightarrow>
     is_IP_loop (replicate n c @ s) dots len = is_IP_loop s dots (len + of_nat n)"
  by (induction n arbitrary: len) (auto simp: algebra_simps)

section \<open>The end of the line in a simple field\<close>

text \<open>
  On the last character of the line, a simple field pushes the pending token without
  calling \<^verbatim>\<open>validate\<close>, whatever the token is; so does a comma in the state
  \<^verbatim>\<open>IP\<close>, also when the token is empty.
\<close>

lemma scan_simple_at_end:
  "c \<noteq> CHR '' '' \<Longrightarrow> c \<noteq> CHR '','' \<Longrightarrow>
     scan_simple skip c True s
       = Inr (s\<lparr>token := token s @ [c], tokens := tokens s @ [token s @ [c]]\<rparr>)"
  by (simp add: scan_simple_def)

lemma scan_simple_comma:
  "state s = IP \<Longrightarrow>
     scan_simple skip (CHR '','') False s = Inr (s\<lparr>tokens := tokens s @ [token s], token := []\<rparr>)"
  by (simp add: scan_simple_def)

text \<open>A space after a pending token is the one place where a simple field is validated.\<close>

lemma scan_simple_space:
  "token s \<noteq> [] \<Longrightarrow>
     scan_simple skip (CHR '' '') at_end s
       = (case validate skip (state s) (token s) of
            Inl e \<Rightarrow> Inl e
          | Inr st \<Rightarrow> Inr \<lparr>tokens = tokens s @ [token s], token = [], state = st\<rparr>)"
  by (simp add: scan_simple_def commit_def split: sum.splits)

lemma scan_simple_CLIENT:
  "state s = CLIENT \<Longrightarrow> token s \<noteq> [] \<Longrightarrow> token s \<noteq> ''-'' \<Longrightarrow>
     scan_simple False (CHR '' '') at_end s = Inl (Throw ''Client identity unsupported.'')"
  by (simp add: scan_simple_space)

section \<open>Runs on concrete lines\<close>

text \<open>The host is in UTC in these runs, unless its offset \<open>tz\<close> is a variable.\<close>

lemma logtime_minus0500:
  "logtimeToUnix (glibc 0) ''04/Apr/2012:10:37:29 -0500'' = Inr ''1333517849''"
  by (simp add: time_defs libc_defs valid_defs cong: lazy)

lemma logtime_plus0000:
  "logtimeToUnix (glibc 0) ''04/Apr/2012:15:37:29 +0000'' = Inr ''1333553849''"
  by (simp add: time_defs libc_defs valid_defs cong: lazy)

lemma offset_any_host:
  "logtimeToUnix (glibc tz) ''04/Apr/2012:10:37:29 -0500''
     \<noteq> logtimeToUnix (glibc tz) ''04/Apr/2012:15:37:29 +0000''"
  by (simp add: time_defs libc_defs valid_defs Let_def cong: lazy)

lemma logtime_garbage: "logtimeToUnix (glibc 0) ''garbage'' = Inr ''-''"
  by (simp add: time_defs libc_defs valid_defs cong: lazy)

text \<open>
  The library takes what precedes the offset and leaves the rest unread: letters in the
  place of the offset are read as digits, and a timestamp without offset is read beyond
  its end.
\<close>

lemma logtime_junk_offset:
  "logtimeToUnix (glibc 0) ''04/Apr/2012:10:37:29 garbage'' = Inr ''1335570389''"
  by (simp add: time_defs libc_defs valid_defs cong: lazy)

lemma logtime_no_offset: "logtimeToUnix (glibc 0) ''04/Apr/2012:10:37:29'' = Inl ReadPastEnd"
  by (simp add: time_defs libc_defs valid_defs cong: lazy)

lemma strptime_garbage: "strptime (glibc 0) (c_str ''garbage'') = None"
  by (simp add: libc_defs valid_defs cong: lazy)

lemma clf_line:
  \<open>tokenize (glibc 0) False ''1.2.3.4 - - [04/Apr/2012:10:37:29 -0500] "GET / HTTP/1.0" 200 5''
   = Inr [''1.2.3.4'', ''-'', ''-'', ''1333517849'', ''GET'', ''/'', ''HTTP/1.0'', ''200'', ''5'']\<close>
  by (simp add: scan_defs valid_defs logtime_minus0500 cong: lazy)

lemma eol_line:
  \<open>tokenize (glibc 0) False
     ''1.2.3.4 - - [04/Apr/2012:10:37:29 -0500] "GET / HTTP/1.0" 200 abc''
   = Inr [''1.2.3.4'', ''-'', ''-'', ''1333517849'', ''GET'', ''/'', ''HTTP/1.0'', ''200'',
          ''abc'']\<close>
  by (simp add: scan_defs valid_defs logtime_minus0500 cong: lazy)

lemma space_line:
  \<open>tokenize (glibc 0) False
     ''1.2.3.4 - - [04/Apr/2012:10:37:29 -0500] "GET / HTTP/1.0" 200 abc ''
   = Inl (Throw ''CONTENT is not numeric.'')\<close>
  by (simp add: scan_defs valid_defs logtime_minus0500 cong: lazy)

lemma garbage_line:
  \<open>tokenize (glibc 0) False ''1.2.3.4 - - [garbage] "GET / HTTP/1.0" 200 5''
   = Inr [''1.2.3.4'', ''-'', ''-'', ''-'', ''GET'', ''/'', ''HTTP/1.0'', ''200'', ''5'']\<close>
  by (simp add: scan_defs valid_defs logtime_garbage cong: lazy)

lemma chain_line:
  \<open>tokenize (glibc 0) False
     ''1.2.3.4, 5.6.7.8 - - [04/Apr/2012:10:37:29 -0500] "GET / HTTP/1.0" 200 5''
   = Inr [''1.2.3.4'', ''5.6.7.8'', ''-'', ''-'', ''1333517849'', ''GET'', ''/'', ''HTTP/1.0'',
          ''200'', ''5'']\<close>
  by (simp add: scan_defs valid_defs logtime_minus0500 cong: lazy)

lemma comma_line:
  \<open>tokenize (glibc 0) False
     ''1.2.3.4,,5.6.7.8 - - [04/Apr/2012:10:37:29 -0500] "GET / HTTP/1.0" 200 5''
   = Inr [''1.2.3.4'', [], ''5.6.7.8'', ''-'', ''-'', ''1333517849'', ''GET'', ''/'',
          ''HTTP/1.0'', ''200'', ''5'']\<close>
  by (simp add: scan_defs valid_defs logtime_minus0500 cong: lazy)

lemma unvalidated_address_line:
  "tokenize (glibc 0) False ''abc,1.2.3.4 - -'' = Inr [''abc'', ''1.2.3.4'', ''-'', ''-'']"
  by (simp add: scan_defs valid_defs cong: lazy)

lemma identity_eol_line: "tokenize (glibc 0) False ''1.2.3.4 foo'' = Inr [''1.2.3.4'', ''foo'']"
  by (simp add: scan_defs valid_defs cong: lazy)

lemma identity_space_line:
  "tokenize (glibc 0) False ''1.2.3.4 foo '' = Inl (Throw ''Client identity unsupported.'')"
  by (simp add: scan_defs valid_defs cong: lazy)

lemma identity_dash_line: "tokenize (glibc 0) False ''1.2.3.4 - x'' = Inr [''1.2.3.4'', ''-'', ''x'']"
  by (simp add: scan_defs valid_defs cong: lazy)

lemma dash_x_line: "tokenize (glibc 0) False ''-x'' = Inr [''-x'']"
  by (simp add: scan_defs valid_defs cong: lazy)

lemma permissive_code_line:
  \<open>tokenize (glibc 0) True ''1.2.3.4 - - [04/Apr/2012:10:37:29 -0500] "GET / HTTP/1.0" abc 5''
   = Inr [''1.2.3.4'', ''-'', ''-'', ''1333517849'', ''GET'', ''/'', ''HTTP/1.0'', ''abc'', ''5'']\<close>
  by (simp add: scan_defs valid_defs logtime_minus0500 cong: lazy)

lemma strict_code_line:
  \<open>tokenize (glibc 0) False ''1.2.3.4 - - [04/Apr/2012:10:37:29 -0500] "GET / HTTP/1.0" abc 5''
   = Inl (Throw ''CODE is not numeric.'')\<close>
  by (simp add: scan_defs valid_defs logtime_minus0500 cong: lazy)

text \<open>What \<^verbatim>\<open>main\<close> writes for a single line, from the outcome of the scan.\<close>

lemma main_accepts:
  "tokenize L False line = Inr ts \<Longrightarrow>
     main L [line] = Inr \<lparr>skip_validation = False, cout = print_tokens ts @ [CHR 0x0A], cerr = []\<rparr>"
  by (simp add: main_def scanCLF_def)

lemma main_rejects:
  "tokenize L False line = Inl (Throw m) \<Longrightarrow>
     main L [line] = Inr \<lparr>skip_validation = False, cout = [],
       cerr = ''Error '' @ [dquote] @ m @ [dquote] @ '' on line: '' @ line @ [CHR 0x0A]\<rparr>"
  by (simp add: main_def scanCLF_def)

lemma validate_CLIENT:
  "tok \<noteq> ''-'' \<Longrightarrow> validate False CLIENT tok = Inl (Throw ''Client identity unsupported.'')"
  by simp

lemma scan_time_close:
  "scan_time L skip (CHR '']'') \<lparr>tokens = ts, token = raw, state = TIME\<rparr>
     = (case logtimeToUnix L raw of
          Inl e \<Rightarrow> Inl e
        | Inr converted \<Rightarrow>
            if skip \<or> is_numeric converted
            then Inr \<lparr>tokens = ts @ [converted], token = [], state = URL_METHOD\<rparr>
            else Inl (Throw ''TIME is not numeric.''))"
  by (simp add: scan_time_def commit_def split: sum.splits)

section \<open>The error of the timestamp\<close>

text \<open>
  The state \<^verbatim>\<open>TIME\<close> is the only one whose validator throws \<^verbatim>\<open>TIME is not numeric.\<close>,
  and it is only called on what \<^verbatim>\<open>logtimeToUnix\<close> returns, which is numeric: no scan of
  any line ends in this exception. When \<^verbatim>\<open>strptime\<close> fails, the closing bracket pushes
  \<^verbatim>\<open>-\<close> as the time and the scan goes on.
\<close>

lemma validate_TIME_message:
  "validate skip s tok = Inl (Throw ''TIME is not numeric.'') \<Longrightarrow> s = TIME \<and> \<not> is_numeric tok"
  by (cases s) (auto split: if_splits)

lemma commit_TIME_message:
  "commit skip s tok = Inl (Throw ''TIME is not numeric.'') \<Longrightarrow> state s = TIME \<and> \<not> is_numeric tok"
  by (auto simp: commit_def split: sum.splits dest: validate_TIME_message)

lemma scan_simple_TIME_message:
  "state s \<noteq> TIME \<Longrightarrow> scan_simple skip c at_end s \<noteq> Inl (Throw ''TIME is not numeric.'')"
  by (auto simp: scan_simple_def split: sum.splits if_splits dest: commit_TIME_message)

lemma scan_time_TIME_message: "scan_time L skip c s \<noteq> Inl (Throw ''TIME is not numeric.'')"
  by (auto simp: scan_time_def split: sum.splits if_splits
      dest: commit_TIME_message logtimeToUnix_numeric logtimeToUnix_Inl)

lemma scan_url_TIME_message:
  "state s \<noteq> TIME \<Longrightarrow> scan_url skip prev c s \<noteq> Inl (Throw ''TIME is not numeric.'')"
  by (auto simp: scan_url_def split: sum.splits if_splits dest: commit_TIME_message unquoted_Inl)

lemma scan_tail_TIME_message:
  "state s \<noteq> TIME \<Longrightarrow> scan_tail skip prev c s \<noteq> Inl (Throw ''TIME is not numeric.'')"
  by (auto simp: scan_tail_def split: sum.splits if_splits dest: commit_TIME_message unquoted_Inl)

lemma scan_char_TIME_message:
  "scan_char L skip prev c at_end s \<noteq> Inl (Throw ''TIME is not numeric.'')"
  by (cases "state s")
     (simp_all add: scan_char_def scan_simple_TIME_message scan_time_TIME_message
        scan_url_TIME_message scan_tail_TIME_message)

lemma scan_loop_TIME_message:
  "scan_loop L skip prev line s \<noteq> Inl (Throw ''TIME is not numeric.'')"
proof (induction line arbitrary: prev s)
  case Nil
  show ?case by simp
next
  case (Cons c rest)
  show ?case
    using scan_char_TIME_message [of L skip prev c "rest = []" s] Cons.IH [of "Some c"]
    by (auto split: sum.splits)
qed

lemma tokenize_TIME_message: "tokenize L skip line \<noteq> Inl (Throw ''TIME is not numeric.'')"
  using scan_loop_TIME_message [of L skip None line "\<lparr>tokens = [], token = [], state = IP\<rparr>"]
  by (auto simp: tokenize_def split: sum.splits)

lemma scan_time_failed:
  "strptime L (c_str raw) = None \<Longrightarrow>
     scan_time L skip (CHR '']'') \<lparr>tokens = ts, token = raw, state = TIME\<rparr>
       = Inr \<lparr>tokens = ts @ [''-''], token = [], state = URL_METHOD\<rparr>"
  by (simp add: scan_time_close logtimeToUnix_def is_numeric_dash)

section \<open>The record that is written\<close>

text \<open>
  The output loop joins the tokens with tabs. A character that is no digit and no \<^verbatim>\<open>-\<close>
  and does not occur in the line occurs in no token, so a line without line feed gives a
  record without line feed.
\<close>

lemma print_tokens_tab_separated: "print_tokens ts = tab_separated ts"
  by (induction ts rule: print_tokens.induct) (simp_all add: tab_separated_def)

lemma tab_separated_chars:
  "x \<noteq> CHR 0x09 \<Longrightarrow> \<forall>t \<in> set ts. x \<notin> set t \<Longrightarrow> x \<notin> set (tab_separated ts)"
  by (cases ts) (auto simp: tab_separated_def)

lemma logtimeToUnix_chars:
  "logtimeToUnix L logtime = Inr tok \<Longrightarrow> \<forall>c \<in> set tok. isdigit c \<or> c = CHR ''-''"
  using dec_int_chars
  by (auto simp: logtimeToUnix_def Let_def split: option.splits prod.splits if_splits)

lemma commit_without:
  "commit skip s tok = Inr s' \<Longrightarrow> without x s \<Longrightarrow> x \<notin> set tok \<Longrightarrow> without x s'"
  by (auto simp: commit_def without_def split: sum.splits)

lemma scan_simple_without:
  "scan_simple skip c at_end s = Inr s' \<Longrightarrow> without x s \<Longrightarrow> x \<noteq> c \<Longrightarrow> without x s'"
  by (auto simp: scan_simple_def commit_def without_def split: sum.splits if_splits)

lemma scan_time_without:
  assumes "scan_time L skip c s = Inr s'" and "without x s" and "x \<noteq> c"
    and "\<not> isdigit x" and "x \<noteq> CHR ''-''"
  shows "without x s'"
proof (cases "c = CHR '']''")
  case True
  with assms(1) obtain converted where conv: "logtimeToUnix L (token s) = Inr converted"
    and com: "commit skip s converted = Inr s'"
    by (auto simp: scan_time_def split: sum.splits)
  from conv assms(4,5) have "x \<notin> set converted" by (auto dest: logtimeToUnix_chars)
  with com assms(2) show ?thesis by (rule commit_without)
next
  case False
  with assms(1,2,3) show ?thesis by (auto simp: scan_time_def without_def split: if_splits)
qed

lemma scan_url_without:
  "scan_url skip prev c s = Inr s' \<Longrightarrow> without x s \<Longrightarrow> x \<noteq> c \<Longrightarrow> without x s'"
  by (auto simp: scan_url_def commit_def without_def split: sum.splits if_splits)

lemma scan_tail_without:
  "scan_tail skip prev c s = Inr s' \<Longrightarrow> without x s \<Longrightarrow> x \<noteq> c \<Longrightarrow> without x s'"
  by (auto simp: scan_tail_def commit_def without_def split: sum.splits if_splits)

lemma scan_char_without:
  assumes "scan_char L skip prev c at_end s = Inr s'" and "without x s" and "x \<noteq> c"
    and "\<not> isdigit x" and "x \<noteq> CHR ''-''"
  shows "without x s'"
  using assms
  by (cases "state s")
     (auto simp: scan_char_def
        dest: scan_simple_without scan_time_without scan_url_without scan_tail_without)

lemma scan_loop_without:
  assumes "\<not> isdigit x" and "x \<noteq> CHR ''-''"
  shows "scan_loop L skip prev line s = Inr s' \<Longrightarrow> without x s \<Longrightarrow> x \<notin> set line
           \<Longrightarrow> without x s'"
proof (induction line arbitrary: prev s)
  case Nil
  then show ?case by simp
next
  case (Cons c rest)
  from Cons.prems(1) obtain s1 where step: "scan_char L skip prev c (rest = []) s = Inr s1"
    and rest: "scan_loop L skip (Some c) rest s1 = Inr s'"
    by (auto split: sum.splits)
  from Cons.prems(3) have "x \<noteq> c" and "x \<notin> set rest" by auto
  from step Cons.prems(2) \<open>x \<noteq> c\<close> assms have "without x s1" by (rule scan_char_without)
  with rest show ?case using \<open>x \<notin> set rest\<close> by (rule Cons.IH)
qed

lemma tokenize_newline:
  assumes "tokenize L skip line = Inr ts" and "CHR 0x0A \<notin> set line"
  shows "CHR 0x0A \<notin> set (tab_separated ts)"
proof -
  from assms(1) obtain s' where
    run: "scan_loop L skip None line \<lparr>tokens = [], token = [], state = IP\<rparr> = Inr s'"
    and ts: "ts = tokens s'"
    by (auto simp: tokenize_def split: sum.splits)
  have "\<not> isdigit (CHR 0x0A)" and "CHR 0x0A \<noteq> CHR ''-''" by (simp_all add: isdigit_def)
  moreover have "without (CHR 0x0A) \<lparr>tokens = [], token = [], state = IP\<rparr>"
    by (simp add: without_def)
  ultimately have "without (CHR 0x0A) s'" using run assms(2) scan_loop_without by blast
  with ts have "\<forall>t \<in> set ts. CHR 0x0A \<notin> set t" by (simp add: without_def)
  then show ?thesis by (intro tab_separated_chars) simp_all
qed

section \<open>The status code in permissive mode\<close>

text \<open>
  From the state \<^verbatim>\<open>CODE\<close> with no pending token, the characters up to the next space or
  comma (or the end of the line) are committed as they are, and with the flag set the
  rest of the scan cannot fail: the states from \<^verbatim>\<open>CODE\<close> on call neither
  \<^verbatim>\<open>logtimeToUnix\<close> nor, with a character before \<^verbatim>\<open>it\<close>, the lookback out of range.
\<close>

lemma scan_loop_code:
  assumes "state s = CODE" and "CHR '' '' \<notin> set code" and "CHR '','' \<notin> set code"
    and "rest \<noteq> []"
  shows "scan_loop L skip prev (code @ rest) s
           = scan_loop L skip (if code = [] then prev else Some (last code)) rest
               (s\<lparr>token := token s @ code\<rparr>)"
  using assms
proof (induction code arbitrary: prev s)
  case Nil
  show ?case by simp
next
  case (Cons c code)
  from Cons.prems have c: "c \<noteq> CHR '' ''" "c \<noteq> CHR '',''" by auto
  with Cons.prems have step: "scan_char L skip prev c False s = Inr (s\<lparr>token := token s @ [c]\<rparr>)"
    by (simp add: scan_char_def scan_simple_def)
  have "scan_loop L skip prev ((c # code) @ rest) s
          = scan_loop L skip (Some c) (code @ rest) (s\<lparr>token := token s @ [c]\<rparr>)"
    using step Cons.prems(4) by simp
  also have "\<dots> = scan_loop L skip (if code = [] then Some c else Some (last code)) rest
                     (s\<lparr>token := token s @ [c], token := token s @ [c] @ code\<rparr>)"
    using Cons.IH [of "s\<lparr>token := token s @ [c]\<rparr>" "Some c"] Cons.prems by simp
  finally show ?case by simp
qed

lemma scan_loop_code_end:
  assumes "state s = CODE" and "CHR '' '' \<notin> set code" and "CHR '','' \<notin> set code"
    and "code \<noteq> []"
  shows "scan_loop L skip prev code s
           = Inr (s\<lparr>token := token s @ code, tokens := tokens s @ [token s @ code]\<rparr>)"
  using assms
proof (induction code arbitrary: prev s)
  case Nil
  then show ?case by simp
next
  case (Cons c code)
  from Cons.prems have c: "c \<noteq> CHR '' ''" "c \<noteq> CHR '',''" by auto
  show ?case
  proof (cases "code = []")
    case True
    with c Cons.prems(1) show ?thesis by (simp add: scan_char_def scan_simple_def)
  next
    case False
    with c Cons.prems(1)
    have "scan_char L skip prev c (code = []) s = Inr (s\<lparr>token := token s @ [c]\<rparr>)"
      by (simp add: scan_char_def scan_simple_def)
    then have "scan_loop L skip prev (c # code) s
                 = scan_loop L skip (Some c) code (s\<lparr>token := token s @ [c]\<rparr>)"
      by simp
    also have "\<dots> = Inr (s\<lparr>token := token s @ [c], token := token s @ [c] @ code,
                           tokens := tokens s @ [token s @ [c] @ code]\<rparr>)"
      using Cons.IH [of "s\<lparr>token := token s @ [c]\<rparr>" "Some c"] Cons.prems False by simp
    finally show ?thesis by simp
  qed
qed

lemma late_step:
  assumes "state s \<in> {CODE, CONTENT, REFERER, AGENT}"
  shows "\<exists>s' ts. scan_char L True (Some b) c at_end s = Inr s'
           \<and> state s' \<in> {CODE, CONTENT, REFERER, AGENT} \<and> tokens s' = tokens s @ ts"
  using assms
  by (auto simp: scan_char_def scan_simple_def scan_tail_def unquoted_def commit_def)

lemma late_loop:
  "state s \<in> {CODE, CONTENT, REFERER, AGENT} \<Longrightarrow>
     \<exists>s' ts. scan_loop L True (Some b) line s = Inr s' \<and> tokens s' = tokens s @ ts"
proof (induction line arbitrary: b s)
  case Nil
  show ?case by simp
next
  case (Cons c rest)
  from late_step [OF Cons.prems, of L b c "rest = []"]
  obtain s1 ts1 where step: "scan_char L True (Some b) c (rest = []) s = Inr s1"
    and st: "state s1 \<in> {CODE, CONTENT, REFERER, AGENT}" and tk: "tokens s1 = tokens s @ ts1"
    by blast
  from Cons.IH [OF st, of c] obtain s' ts where
    "scan_loop L True (Some c) rest s1 = Inr s'" and "tokens s' = tokens s1 @ ts"
    by blast
  with step tk show ?case by simp
qed

lemma code_delimiter:
  assumes "state s = CODE" and "token s \<noteq> []" and "d = CHR '' '' \<or> d = CHR '',''"
  shows "scan_char L True prev d at_end s
           = Inr \<lparr>tokens = tokens s @ [token s], token = [], state = CONTENT\<rparr>"
  using assms by (auto simp: scan_char_def scan_simple_def commit_def)

lemma permissive_code_field:
  assumes st: "state s = CODE" and tok: "token s = []" and ne: "code \<noteq> []"
    and sp: "CHR '' '' \<notin> set code" and co: "CHR '','' \<notin> set code"
    and rest: "rest = [] \<or> hd rest = CHR '' '' \<or> hd rest = CHR '',''"
  shows "\<exists>s' ts. scan_loop L True prev (code @ rest) s = Inr s'
           \<and> tokens s' = tokens s @ code # ts"
proof (cases rest)
  case Nil
  with scan_loop_code_end [OF st sp co ne, of L True prev] tok show ?thesis by simp
next
  case (Cons d r)
  with rest have d: "d = CHR '' '' \<or> d = CHR '',''" by simp
  let ?s1 = "s\<lparr>token := token s @ code\<rparr>"
  let ?s2 = "\<lparr>tokens = tokens s @ [code], token = [], state = CONTENT\<rparr>"
  have "scan_loop L True prev (code @ rest) s = scan_loop L True (Some (last code)) rest ?s1"
    using scan_loop_code [OF st sp co, of rest L True prev] Cons ne by simp
  also have "\<dots> = scan_loop L True (Some d) r ?s2"
    using code_delimiter [of ?s1 d L "Some (last code)" "r = []"] st tok ne d Cons by simp
  finally have run: "scan_loop L True prev (code @ rest) s = scan_loop L True (Some d) r ?s2" .
  have "state ?s2 \<in> {CODE, CONTENT, REFERER, AGENT}" by simp
  from late_loop [OF this, of L d r] obtain s' ts where
    "scan_loop L True (Some d) r ?s2 = Inr s'" and "tokens s' = tokens ?s2 @ ts"
    by blast
  with run show ?thesis by simp
qed

section \<open>More runs on concrete lines\<close>

lemma logtime_no_offset_any_host:
  "logtimeToUnix (glibc tz) ''04/Apr/2012:10:37:29'' = Inl ReadPastEnd"
  by (simp add: time_defs libc_defs valid_defs cong: lazy)

lemma short_timestamp_line:
  \<open>tokenize (glibc 0) False ''1.2.3.4 - - [04/Apr/2012:10:37:29] "GET / HTTP/1.0" 200 5''
   = Inl ReadPastEnd\<close>
  by (simp add: scan_defs valid_defs logtime_no_offset cong: lazy)

lemma permissive_code_reach:
  \<open>scan_loop (glibc 0) True None
     ''1.2.3.4 - - [04/Apr/2012:10:37:29 -0500] "GET / HTTP/1.0" abc 5''
     \<lparr>tokens = [], token = [], state = IP\<rparr>
   = scan_loop (glibc 0) True (Some (CHR '' '')) (''abc'' @ '' 5'')
       \<lparr>tokens = [''1.2.3.4'', ''-'', ''-'', ''1333517849'', ''GET'', ''/'', ''HTTP/1.0''],
         token = [], state = CODE\<rparr>\<close>
  by (simp add: scan_defs valid_defs logtime_minus0500 cong: lazy)

section \<open>The claims\<close>

subsection \<open>C1: the offset of a timestamp\<close>

text \<open>
  Claim C1 asks that \<^verbatim>\<open>04/Apr/2012:10:37:29 -0500\<close> and \<^verbatim>\<open>04/Apr/2012:15:37:29 +0000\<close>,
  which name the same instant, normalise to the same epoch seconds. The code does not do
  that: it adds the signed offset to the calendar value where it has to subtract it. On a
  host in UTC the first string gives 1333517849 and the second 1333553849, ten hours
  apart (the instant is 1333553849), and on a host with any fixed offset \<open>tz\<close> the two
  results differ.
\<close>

theorem logtimeToUnix_offset_sign:
  "logtimeToUnix (glibc 0) ''04/Apr/2012:10:37:29 -0500'' = Inr ''1333517849''
   \<and> logtimeToUnix (glibc 0) ''04/Apr/2012:15:37:29 +0000'' = Inr ''1333553849''
   \<and> (\<forall>tz. logtimeToUnix (glibc tz) ''04/Apr/2012:10:37:29 -0500''
            \<noteq> logtimeToUnix (glibc tz) ''04/Apr/2012:15:37:29 +0000'')"
proof (intro conjI allI)
  show "logtimeToUnix (glibc 0) ''04/Apr/2012:10:37:29 -0500'' = Inr ''1333517849''"
    by (rule logtime_minus0500)
  show "logtimeToUnix (glibc 0) ''04/Apr/2012:15:37:29 +0000'' = Inr ''1333553849''"
    by (rule logtime_plus0000)
  show "logtimeToUnix (glibc tz) ''04/Apr/2012:10:37:29 -0500''
          \<noteq> logtimeToUnix (glibc tz) ''04/Apr/2012:15:37:29 +0000''" for tz
    by (rule offset_any_host)
qed

subsection \<open>C2: a timestamp that cannot be normalised\<close>

text \<open>
  Claim C2 asks that a bracketed string without the shape of a timestamp make
  normalisation fail and, in strict mode, the line be rejected with
  \<^verbatim>\<open>TIME is not numeric.\<close> The code does not reject such a line. On \<^verbatim>\<open>garbage\<close>
  normalisation fails and returns \<^verbatim>\<open>-\<close>, which \<^verbatim>\<open>is_numeric\<close> accepts, so the validator
  of the state \<^verbatim>\<open>TIME\<close> moves on to \<^verbatim>\<open>URL_METHOD\<close>, and \<^verbatim>\<open>main\<close> writes the record,
  with \<^verbatim>\<open>-\<close> for the time, and no error. The exception the validator has for this state
  is dead code: no scan of any line, with any C library and either value of the flag,
  ends in it. With the GNU C library normalisation does not even fail on every string
  without the shape: with \<^verbatim>\<open>garbage\<close> in the place of the offset it returns a number.
\<close>

theorem malformed_time_accepted:
  \<open>logtimeToUnix (glibc 0) ''garbage'' = Inr ''-''
   \<and> logtimeToUnix (glibc 0) ''04/Apr/2012:10:37:29 garbage'' = Inr ''1335570389''
   \<and> is_numeric ''-''
   \<and> validate False TIME ''-'' = Inr URL_METHOD
   \<and> tokenize (glibc 0) False ''1.2.3.4 - - [garbage] "GET / HTTP/1.0" 200 5''
       = Inr [''1.2.3.4'', ''-'', ''-'', ''-'', ''GET'', ''/'', ''HTTP/1.0'', ''200'', ''5'']
   \<and> main (glibc 0) [''1.2.3.4 - - [garbage] "GET / HTTP/1.0" 200 5'']
       = Inr \<lparr>skip_validation = False,
              cout = ''1.2.3.4'' @ [CHR 0x09] @ ''-'' @ [CHR 0x09] @ ''-'' @ [CHR 0x09] @ ''-''
                     @ [CHR 0x09] @ ''GET'' @ [CHR 0x09] @ ''/'' @ [CHR 0x09] @ ''HTTP/1.0''
                     @ [CHR 0x09] @ ''200'' @ [CHR 0x09] @ ''5'' @ [CHR 0x0A],
              cerr = []\<rparr>
   \<and> tokenize L skip line \<noteq> Inl (Throw ''TIME is not numeric.'')\<close>
proof (intro conjI)
  show "logtimeToUnix (glibc 0) ''garbage'' = Inr ''-''" by (rule logtime_garbage)
  show "logtimeToUnix (glibc 0) ''04/Apr/2012:10:37:29 garbage'' = Inr ''1335570389''"
    by (rule logtime_junk_offset)
  show "is_numeric ''-''" by (rule is_numeric_dash)
  show "validate False TIME ''-'' = Inr URL_METHOD" by (simp add: is_numeric_dash)
  show \<open>tokenize (glibc 0) False ''1.2.3.4 - - [garbage] "GET / HTTP/1.0" 200 5''
       = Inr [''1.2.3.4'', ''-'', ''-'', ''-'', ''GET'', ''/'', ''HTTP/1.0'', ''200'', ''5'']\<close>
    by (rule garbage_line)
  show \<open>main (glibc 0) [''1.2.3.4 - - [garbage] "GET / HTTP/1.0" 200 5'']
       = Inr \<lparr>skip_validation = False,
              cout = ''1.2.3.4'' @ [CHR 0x09] @ ''-'' @ [CHR 0x09] @ ''-'' @ [CHR 0x09] @ ''-''
                     @ [CHR 0x09] @ ''GET'' @ [CHR 0x09] @ ''/'' @ [CHR 0x09] @ ''HTTP/1.0''
                     @ [CHR 0x09] @ ''200'' @ [CHR 0x09] @ ''5'' @ [CHR 0x0A],
              cerr = []\<rparr>\<close>
    using main_accepts [OF garbage_line] by simp
  show "tokenize L skip line \<noteq> Inl (Throw ''TIME is not numeric.'')"
    by (rule tokenize_TIME_message)
qed

subsection \<open>C3: is_IP\<close>

text \<open>
  Claim C3 asks that \<^verbatim>\<open>is_IP\<close> accept the token \<^verbatim>\<open>-\<close> and dotted tokens of at most 15
  characters, and nothing else. The code accepts every token that begins with \<^verbatim>\<open>-\<close>,
  whatever follows: it tests the first character only, where \<^verbatim>\<open>is_user\<close> also tests that
  the string ends there. So \<^verbatim>\<open>-x\<close> passes the validator of the state \<^verbatim>\<open>IP\<close>. The
  counters being \<^verbatim>\<open>short\<close>, a token of 32765 digits and three dots passes as well.
\<close>

theorem is_IP_leading_dash:
  "is_IP (CHR ''-'' # rest)
   \<and> validate False IP ''-x'' = Inr CLIENT
   \<and> is_IP (replicate 32765 (CHR ''1'') @ ''...'')"
proof -
  have a: "is_IP (CHR ''-'' # rest)" by (simp add: is_IP_def c_str_def NUL_def)
  have b: "validate False IP ''-x'' = Inr CLIENT" by (simp add: is_IP_def c_str_def NUL_def)
  have "NUL \<notin> set (replicate 32765 (CHR ''1'') @ ''...'')" by (auto simp: NUL_def)
  then have "c_str (replicate 32765 (CHR ''1'') @ ''...'') = replicate 32765 (CHR ''1'') @ ''...''"
    by (rule c_str_id)
  moreover have "is_IP_loop (replicate 32765 (CHR ''1'') @ ''...'') 0 0"
    by (simp add: is_IP_loop_digits isdigit_def)
  ultimately have c: "is_IP (replicate 32765 (CHR ''1'') @ ''...'')"
    by (simp add: is_IP_def peek_replicate)
  from a b c show ?thesis by simp
qed

subsection \<open>C4: validation before a token is committed\<close>

text \<open>
  Claim C4 asks that in strict mode no token of a simple field reach the record without
  passing its validator, also when the line ends right after the token. The code pushes
  the token that is pending at the end of the line without calling \<^verbatim>\<open>validate\<close>: the
  line ending in \<^verbatim>\<open>200 abc\<close> is accepted and written with \<^verbatim>\<open>abc\<close> as its content length,
  although the validator rejects \<^verbatim>\<open>abc\<close> and the same line with a space after \<^verbatim>\<open>abc\<close> is
  rejected. A comma in the state \<^verbatim>\<open>IP\<close> pushes its token without validation too.
\<close>

theorem end_of_line_commit_unvalidated:
  \<open>tokenize (glibc 0) False
      ''1.2.3.4 - - [04/Apr/2012:10:37:29 -0500] "GET / HTTP/1.0" 200 abc''
     = Inr [''1.2.3.4'', ''-'', ''-'', ''1333517849'', ''GET'', ''/'', ''HTTP/1.0'', ''200'',
            ''abc'']
   \<and> main (glibc 0) [''1.2.3.4 - - [04/Apr/2012:10:37:29 -0500] "GET / HTTP/1.0" 200 abc'']
       = Inr \<lparr>skip_validation = False,
              cout = print_tokens [''1.2.3.4'', ''-'', ''-'', ''1333517849'', ''GET'', ''/'',
                                   ''HTTP/1.0'', ''200'', ''abc''] @ [CHR 0x0A],
              cerr = []\<rparr>
   \<and> validate False CONTENT ''abc'' = Inl (Throw ''CONTENT is not numeric.'')
   \<and> tokenize (glibc 0) False
        ''1.2.3.4 - - [04/Apr/2012:10:37:29 -0500] "GET / HTTP/1.0" 200 abc ''
       = Inl (Throw ''CONTENT is not numeric.'')
   \<and> tokenize (glibc 0) False ''abc,1.2.3.4 - -'' = Inr [''abc'', ''1.2.3.4'', ''-'', ''-'']
   \<and> validate False IP ''abc'' = Inl (Throw ''IP is invalid.'')\<close>
proof (intro conjI)
  show "validate False CONTENT ''abc'' = Inl (Throw ''CONTENT is not numeric.'')"
    by (simp add: valid_defs)
  show "validate False IP ''abc'' = Inl (Throw ''IP is invalid.'')"
    by (simp add: valid_defs)
qed (rule eol_line main_accepts [OF eol_line] space_line unvalidated_address_line)+

subsection \<open>C5: commas and empty tokens in the address\<close>

text \<open>
  Claim C5 asks that a comma in the state \<^verbatim>\<open>IP\<close> commit the token as one more address,
  and that an empty token between two delimiters never be committed. The first half
  holds: \<^verbatim>\<open>1.2.3.4, 5.6.7.8\<close> gives two addresses, the space after the comma being
  skipped. The second fails for the comma, which pushes the token without looking whether
  it is empty, as the branch of the space does: \<^verbatim>\<open>1.2.3.4,,5.6.7.8\<close> puts an empty entry
  between the two addresses.
\<close>

theorem comma_commits_empty_token:
  \<open>tokenize (glibc 0) False
      ''1.2.3.4, 5.6.7.8 - - [04/Apr/2012:10:37:29 -0500] "GET / HTTP/1.0" 200 5''
     = Inr [''1.2.3.4'', ''5.6.7.8'', ''-'', ''-'', ''1333517849'', ''GET'', ''/'', ''HTTP/1.0'',
            ''200'', ''5'']
   \<and> tokenize (glibc 0) False
        ''1.2.3.4,,5.6.7.8 - - [04/Apr/2012:10:37:29 -0500] "GET / HTTP/1.0" 200 5''
       = Inr [''1.2.3.4'', [], ''5.6.7.8'', ''-'', ''-'', ''1333517849'', ''GET'', ''/'',
              ''HTTP/1.0'', ''200'', ''5'']\<close>
  by (intro conjI) (rule chain_line comma_line)+

subsection \<open>C6: the client identity\<close>

text \<open>
  Claim C6 asks that in strict mode every line whose client identity is not \<^verbatim>\<open>-\<close> be
  rejected with \<^verbatim>\<open>Client identity unsupported.\<close> and write no record. The validator does
  reject such a token, and so does the scan when a space follows it; but when the line
  ends with the identity, the token is pushed without validation (the defect of C4), and
  \<^verbatim>\<open>main\<close> writes a record of two fields and no error.
\<close>

theorem client_identity_at_end_of_line:
  "tokenize (glibc 0) False ''1.2.3.4 foo'' = Inr [''1.2.3.4'', ''foo'']
   \<and> main (glibc 0) [''1.2.3.4 foo'']
       = Inr \<lparr>skip_validation = False,
              cout = print_tokens [''1.2.3.4'', ''foo''] @ [CHR 0x0A],
              cerr = []\<rparr>
   \<and> validate False CLIENT ''foo'' = Inl (Throw ''Client identity unsupported.'')
   \<and> tokenize (glibc 0) False ''1.2.3.4 foo '' = Inl (Throw ''Client identity unsupported.'')"
proof (intro conjI)
  show "validate False CLIENT ''foo'' = Inl (Throw ''Client identity unsupported.'')"
    by simp
qed (rule identity_eol_line main_accepts [OF identity_eol_line] identity_space_line)+

subsection \<open>C7: the permissive flag\<close>

text \<open>
  Claim C7. With \<^verbatim>\<open>skip_validation\<close> set:
  \<^item> \<^verbatim>\<open>validate\<close> throws for no state and no token, and moves the state as it does for a
    valid token;
  \<^item> no scan of any line ends in an exception, on any C library;
  \<^item> the closing bracket of a timestamp still calls \<^verbatim>\<open>logtimeToUnix\<close> and pushes the
    converted token;
  \<^item> every line either leaves defined behaviour in \<^verbatim>\<open>logtimeToUnix\<close> (a read beyond the
    timestamp, or an overflow of \<^verbatim>\<open>time_t\<close>), or \<^verbatim>\<open>scanCLF\<close> appends one record to
    \<^verbatim>\<open>cout\<close>, the tokens joined by tabs and then a line feed, and nothing to \<^verbatim>\<open>cerr\<close>;
    the record holds no line feed when the line holds none;
  \<^item> a line with a status code, numeric or not: if the scan of the line comes to the
    state \<^verbatim>\<open>CODE\<close> with no pending token, and what is left of the line is a nonempty
    \<open>code\<close> without space and comma, followed by a space, a comma or the end of the
    line, then the line gives one record, whose fields are the fields committed so far,
    then \<open>code\<close> as it stands in the line, then the fields of the rest;
  \<^item> the line whose status code is \<^verbatim>\<open>abc\<close> gives the record written out below, with
    \<^verbatim>\<open>abc\<close> in it and the timestamp normalised.
\<close>

theorem permissive_never_throws:
  \<open>(\<exists>s'. validate True s tok = Inr s'
        \<and> ((s = AGENT \<and> s' = AGENT) \<or> State_value s' = State_value s + 1))
   \<and> tokenize L True line \<noteq> Inl (Throw m)
   \<and> scan_time L True (CHR '']'') \<lparr>tokens = ts0, token = raw, state = TIME\<rparr>
       = (case logtimeToUnix L raw of
            Inl e \<Rightarrow> Inl e
          | Inr converted \<Rightarrow> Inr \<lparr>tokens = ts0 @ [converted], token = [], state = URL_METHOD\<rparr>)
   \<and> (tokenize L True line = Inl ReadPastEnd \<or> tokenize L True line = Inl SignedOverflow
        \<or> (\<exists>ts. tokenize L True line = Inr ts
              \<and> scanCLF L line \<lparr>skip_validation = True, cout = out, cerr = err\<rparr>
                  = Inr \<lparr>skip_validation = True, cout = out @ tab_separated ts @ [CHR 0x0A],
                         cerr = err\<rparr>
              \<and> (CHR 0x0A \<notin> set line \<longrightarrow> CHR 0x0A \<notin> set (tab_separated ts))))
   \<and> (state sc = CODE \<and> token sc = [] \<and> code \<noteq> []
        \<and> CHR '' '' \<notin> set code \<and> CHR '','' \<notin> set code
        \<and> (rest = [] \<or> hd rest = CHR '' '' \<or> hd rest = CHR '','')
        \<and> scan_loop L True None line \<lparr>tokens = [], token = [], state = IP\<rparr>
            = scan_loop L True prev (code @ rest) sc
      \<longrightarrow> (\<exists>ts. tokenize L True line = Inr (tokens sc @ code # ts)
              \<and> scanCLF L line \<lparr>skip_validation = True, cout = out, cerr = err\<rparr>
                  = Inr \<lparr>skip_validation = True,
                         cout = out @ tab_separated (tokens sc @ code # ts) @ [CHR 0x0A],
                         cerr = err\<rparr>))
   \<and> scanCLF (glibc 0) ''1.2.3.4 - - [04/Apr/2012:10:37:29 -0500] "GET / HTTP/1.0" abc 5''
         \<lparr>skip_validation = True, cout = [], cerr = []\<rparr>
       = Inr \<lparr>skip_validation = True,
              cout = ''1.2.3.4'' @ [CHR 0x09] @ ''-'' @ [CHR 0x09] @ ''-'' @ [CHR 0x09]
                     @ ''1333517849'' @ [CHR 0x09] @ ''GET'' @ [CHR 0x09] @ ''/'' @ [CHR 0x09]
                     @ ''HTTP/1.0'' @ [CHR 0x09] @ ''abc'' @ [CHR 0x09] @ ''5'' @ [CHR 0x0A],
              cerr = []\<rparr>\<close>
proof (intro conjI)
  obtain s' where "validate True s tok = Inr s'" using validate_skip by blast
  then show "\<exists>s'. validate True s tok = Inr s'
        \<and> ((s = AGENT \<and> s' = AGENT) \<or> State_value s' = State_value s + 1)"
    using validate_step by blast
  show "tokenize L True line \<noteq> Inl (Throw m)" by (rule tokenize_skip)
  show "scan_time L True (CHR '']'') \<lparr>tokens = ts0, token = raw, state = TIME\<rparr>
       = (case logtimeToUnix L raw of
            Inl e \<Rightarrow> Inl e
          | Inr converted \<Rightarrow> Inr \<lparr>tokens = ts0 @ [converted], token = [], state = URL_METHOD\<rparr>)"
    by (simp add: scan_time_close split: sum.splits)
  show "tokenize L True line = Inl ReadPastEnd \<or> tokenize L True line = Inl SignedOverflow
        \<or> (\<exists>ts. tokenize L True line = Inr ts
              \<and> scanCLF L line \<lparr>skip_validation = True, cout = out, cerr = err\<rparr>
                  = Inr \<lparr>skip_validation = True, cout = out @ tab_separated ts @ [CHR 0x0A],
                         cerr = err\<rparr>
              \<and> (CHR 0x0A \<notin> set line \<longrightarrow> CHR 0x0A \<notin> set (tab_separated ts)))"
  proof (cases "tokenize L True line")
    case (Inr ts)
    then have "scanCLF L line \<lparr>skip_validation = True, cout = out, cerr = err\<rparr>
                 = Inr \<lparr>skip_validation = True, cout = out @ tab_separated ts @ [CHR 0x0A],
                        cerr = err\<rparr>"
      by (simp add: scanCLF_def print_tokens_tab_separated)
    moreover have "CHR 0x0A \<notin> set line \<longrightarrow> CHR 0x0A \<notin> set (tab_separated ts)"
      using Inr by (auto dest: tokenize_newline)
    ultimately show ?thesis using Inr by blast
  next
    case (Inl e)
    then show ?thesis
      using tokenize_skip [of L line] tokenize_lookback [of L True line] by (cases e) auto
  qed
  show "state sc = CODE \<and> token sc = [] \<and> code \<noteq> []
        \<and> CHR '' '' \<notin> set code \<and> CHR '','' \<notin> set code
        \<and> (rest = [] \<or> hd rest = CHR '' '' \<or> hd rest = CHR '','')
        \<and> scan_loop L True None line \<lparr>tokens = [], token = [], state = IP\<rparr>
            = scan_loop L True prev (code @ rest) sc
      \<longrightarrow> (\<exists>ts. tokenize L True line = Inr (tokens sc @ code # ts)
              \<and> scanCLF L line \<lparr>skip_validation = True, cout = out, cerr = err\<rparr>
                  = Inr \<lparr>skip_validation = True,
                         cout = out @ tab_separated (tokens sc @ code # ts) @ [CHR 0x0A],
                         cerr = err\<rparr>)"
  proof (intro impI, elim conjE)
    assume st: "state sc = CODE" and tk: "token sc = []" and ne: "code \<noteq> []"
      and sp: "CHR '' '' \<notin> set code" and co: "CHR '','' \<notin> set code"
      and rs: "rest = [] \<or> hd rest = CHR '' '' \<or> hd rest = CHR '',''"
      and reach: "scan_loop L True None line \<lparr>tokens = [], token = [], state = IP\<rparr>
                    = scan_loop L True prev (code @ rest) sc"
    from permissive_code_field [OF st tk ne sp co rs, of L prev]
    obtain s' ts where "scan_loop L True prev (code @ rest) sc = Inr s'"
      and "tokens s' = tokens sc @ code # ts"
      by blast
    with reach have "tokenize L True line = Inr (tokens sc @ code # ts)"
      by (simp add: tokenize_def)
    then show "\<exists>ts. tokenize L True line = Inr (tokens sc @ code # ts)
              \<and> scanCLF L line \<lparr>skip_validation = True, cout = out, cerr = err\<rparr>
                  = Inr \<lparr>skip_validation = True,
                         cout = out @ tab_separated (tokens sc @ code # ts) @ [CHR 0x0A],
                         cerr = err\<rparr>"
      by (auto simp: scanCLF_def print_tokens_tab_separated)
  qed
  show \<open>scanCLF (glibc 0) ''1.2.3.4 - - [04/Apr/2012:10:37:29 -0500] "GET / HTTP/1.0" abc 5''
         \<lparr>skip_validation = True, cout = [], cerr = []\<rparr>
       = Inr \<lparr>skip_validation = True,
              cout = ''1.2.3.4'' @ [CHR 0x09] @ ''-'' @ [CHR 0x09] @ ''-'' @ [CHR 0x09]
                     @ ''1333517849'' @ [CHR 0x09] @ ''GET'' @ [CHR 0x09] @ ''/'' @ [CHR 0x09]
                     @ ''HTTP/1.0'' @ [CHR 0x09] @ ''abc'' @ [CHR 0x09] @ ''5'' @ [CHR 0x0A],
              cerr = []\<rparr>\<close>
    by (simp add: scanCLF_def permissive_code_line)
qed

theorem permissive_never_throws_witness:
  \<open>scan_loop (glibc 0) True None
     ''1.2.3.4 - - [04/Apr/2012:10:37:29 -0500] "GET / HTTP/1.0" abc 5''
     \<lparr>tokens = [], token = [], state = IP\<rparr>
   = scan_loop (glibc 0) True (Some (CHR '' '')) (''abc'' @ '' 5'')
       \<lparr>tokens = [''1.2.3.4'', ''-'', ''-'', ''1333517849'', ''GET'', ''/'', ''HTTP/1.0''],
         token = [], state = CODE\<rparr>
   \<and> (\<exists>ts. tokenize (glibc 0) True
              ''1.2.3.4 - - [04/Apr/2012:10:37:29 -0500] "GET / HTTP/1.0" abc 5''
            = Inr ([''1.2.3.4'', ''-'', ''-'', ''1333517849'', ''GET'', ''/'', ''HTTP/1.0'']
                   @ ''abc'' # ts)
          \<and> scanCLF (glibc 0)
                ''1.2.3.4 - - [04/Apr/2012:10:37:29 -0500] "GET / HTTP/1.0" abc 5''
                \<lparr>skip_validation = True, cout = [], cerr = []\<rparr>
              = Inr \<lparr>skip_validation = True,
                     cout = [] @ tab_separated
                              ([''1.2.3.4'', ''-'', ''-'', ''1333517849'', ''GET'', ''/'',
                                ''HTTP/1.0''] @ ''abc'' # ts) @ [CHR 0x0A],
                     cerr = []\<rparr>)\<close>
proof -
  let ?line = \<open>''1.2.3.4 - - [04/Apr/2012:10:37:29 -0500] "GET / HTTP/1.0" abc 5''\<close>
  let ?sc = "\<lparr>tokens = [''1.2.3.4'', ''-'', ''-'', ''1333517849'', ''GET'', ''/'', ''HTTP/1.0''],
              token = [], state = CODE\<rparr>"
  note code_field = permissive_never_throws [where L = "glibc 0" and line = "?line"
      and sc = "?sc" and code = "''abc''" and rest = "'' 5''" and prev = "Some (CHR '' '')"
      and out = "[]" and err = "[]",
      THEN conjunct2, THEN conjunct2, THEN conjunct2, THEN conjunct2, THEN conjunct1]
  have "state ?sc = CODE \<and> token ?sc = [] \<and> ''abc'' \<noteq> []
        \<and> CHR '' '' \<notin> set ''abc'' \<and> CHR '','' \<notin> set ''abc''
        \<and> ('' 5'' = [] \<or> hd '' 5'' = CHR '' '' \<or> hd '' 5'' = CHR '','')
        \<and> scan_loop (glibc 0) True None ?line \<lparr>tokens = [], token = [], state = IP\<rparr>
            = scan_loop (glibc 0) True (Some (CHR '' '')) (''abc'' @ '' 5'') ?sc"
    using permissive_code_reach by (intro conjI) simp_all
  with code_field have "\<exists>ts. tokenize (glibc 0) True ?line
            = Inr (tokens ?sc @ ''abc'' # ts)
          \<and> scanCLF (glibc 0) ?line \<lparr>skip_validation = True, cout = [], cerr = []\<rparr>
              = Inr \<lparr>skip_validation = True,
                     cout = [] @ tab_separated (tokens ?sc @ ''abc'' # ts) @ [CHR 0x0A],
                     cerr = []\<rparr>"
    by (rule mp)
  then show ?thesis using permissive_code_reach by simp
qed

subsection \<open>C8: the order of the states\<close>

text \<open>
  Claim C8. A call of \<^verbatim>\<open>validate\<close> throws, or leaves the last state \<^verbatim>\<open>AGENT\<close> as it is, or
  moves the state to the enumerator that follows it in the order of the enumeration: its
  value grows by one, so no call goes back or skips a state. The end of the input is no
  error in any state: the loop returns its scanner, and a line that ends with its content
  length is accepted with its nine fields.
\<close>

theorem validate_monotonic:
  \<open>((\<exists>m. validate skip s tok = Inl (Throw m))
      \<or> (s = AGENT \<and> validate skip s tok = Inr AGENT)
      \<or> (\<exists>s'. validate skip s tok = Inr s' \<and> State_value s' = State_value s + 1))
   \<and> scan_loop L skip prev [] sc = Inr sc
   \<and> tokenize (glibc 0) False ''1.2.3.4 - - [04/Apr/2012:10:37:29 -0500] "GET / HTTP/1.0" 200 5''
       = Inr [''1.2.3.4'', ''-'', ''-'', ''1333517849'', ''GET'', ''/'', ''HTTP/1.0'', ''200'',
              ''5'']\<close>
proof (intro conjI)
  show "(\<exists>m. validate skip s tok = Inl (Throw m))
      \<or> (s = AGENT \<and> validate skip s tok = Inr AGENT)
      \<or> (\<exists>s'. validate skip s tok = Inr s' \<and> State_value s' = State_value s + 1)"
    by (cases s) auto
  show "scan_loop L skip prev [] sc = Inr sc" by simp
qed (rule clf_line)

subsection \<open>C9: one line at a time\<close>

text \<open>
  Claim C9 asks that two calls of \<^verbatim>\<open>scanCLF\<close> on the same line write the same output,
  whatever lines were processed between them. The program keeps no state from one line
  to the next, and as long as every read stays within its string the output is a function
  of the flag, the C library and the line (lemma \<open>main_loop_appends\<close>). But
  \<^verbatim>\<open>logtimeToUnix\<close> reads \<^verbatim>\<open>logtime[21]\<close> to \<^verbatim>\<open>logtime[25]\<close> without looking at the size of
  the string. The GNU C library accepts the timestamp \<^verbatim>\<open>04/Apr/2012:10:37:29\<close>, that has
  no offset and 20 characters, and the five reads fall behind the end of the string: the
  behaviour of the program is undefined there, and what it prints for the line is whatever
  lies in memory behind the token, which earlier lines can have left. The scan of such a
  line, alone or after another line, ends in the read past the end.
\<close>

theorem short_timestamp_read_past_end:
  \<open>str_at ''04/Apr/2012:10:37:29'' 21 = None
   \<and> logtimeToUnix (glibc tz) ''04/Apr/2012:10:37:29'' = Inl ReadPastEnd
   \<and> tokenize (glibc 0) False ''1.2.3.4 - - [04/Apr/2012:10:37:29] "GET / HTTP/1.0" 200 5''
       = Inl ReadPastEnd
   \<and> main (glibc 0) [''1.2.3.4 - - [04/Apr/2012:10:37:29] "GET / HTTP/1.0" 200 5'']
       = Inl ReadPastEnd
   \<and> main (glibc 0) [''1.2.3.4 - - [04/Apr/2012:10:37:29 -0500] "GET / HTTP/1.0" 200 5'',
                      ''1.2.3.4 - - [04/Apr/2012:10:37:29] "GET / HTTP/1.0" 200 5'']
       = Inl ReadPastEnd\<close>
proof (intro conjI)
  show "str_at ''04/Apr/2012:10:37:29'' 21 = None" by (simp add: str_at_def)
  show "logtimeToUnix (glibc tz) ''04/Apr/2012:10:37:29'' = Inl ReadPastEnd"
    by (rule logtime_no_offset_any_host)
  show \<open>tokenize (glibc 0) False ''1.2.3.4 - - [04/Apr/2012:10:37:29] "GET / HTTP/1.0" 200 5''
       = Inl ReadPastEnd\<close>
    by (rule short_timestamp_line)
  show \<open>main (glibc 0) [''1.2.3.4 - - [04/Apr/2012:10:37:29] "GET / HTTP/1.0" 200 5'']
       = Inl ReadPastEnd\<close>
    by (simp add: main_def scanCLF_def short_timestamp_line)
  show \<open>main (glibc 0) [''1.2.3.4 - - [04/Apr/2012:10:37:29 -0500] "GET / HTTP/1.0" 200 5'',
                      ''1.2.3.4 - - [04/Apr/2012:10:37:29] "GET / HTTP/1.0" 200 5'']
       = Inl ReadPastEnd\<close>
    by (simp add: main_def scanCLF_def clf_line short_timestamp_line)
qed

subsection \<open>C10: the lookback\<close>

text \<open>
  Claim C10. The scan of a line never evaluates \<^verbatim>\<open>*(it-1)\<close> with \<^verbatim>\<open>it\<close> at the first
  character: the first character is read in the state \<^verbatim>\<open>IP\<close>, whose case has no
  lookback, and every later character has a predecessor. No scan and no run of \<^verbatim>\<open>main\<close>
  ends in a read before the start of a line, for any C library, flag and input.
\<close>

theorem lookback_in_bounds:
  "scan_char L skip None c at_end \<lparr>tokens = [], token = [], state = IP\<rparr> \<noteq> Inl ReadBeforeBegin
   \<and> tokenize L skip line \<noteq> Inl ReadBeforeBegin
   \<and> main L input \<noteq> Inl ReadBeforeBegin"
proof (intro conjI)
  show "scan_char L skip None c at_end \<lparr>tokens = [], token = [], state = IP\<rparr>
          \<noteq> Inl ReadBeforeBegin"
    by (rule scan_char_IP) simp
  show "tokenize L skip line \<noteq> Inl ReadBeforeBegin" by (rule tokenize_lookback)
  show "main L input \<noteq> Inl ReadBeforeBegin" by (simp add: main_def main_loop_lookback)
qed

end
